theory Spec2Isabelle
  imports Main
begin

section \<open>The scene model of src/Main.py\<close>

text \<open>
  The program is a Tk application: a class \<open>Sprite\<close> and a class \<open>FlamingEngine\<close>
  whose methods are bound to widget events. The embedding keeps the two classes and
  makes explicit what Python leaves implicit:
  \<^item> \<open>Sprite\<close> objects are mutable and shared (the scene dictionary and
    \<open>selected_sprite\<close> hold references to the same object), so the engine state has a
    store \<open>heap\<close> from object references to sprite records and an allocation counter;
  \<^item> \<open>str(uuid.uuid4())\<close> is an input from outside: every function that constructs a
    \<open>Sprite\<close> takes the string that \<open>uuid4\<close> returns there as its first argument;
  \<^item> the dictionary \<open>self.sprites\<close> keeps insertion order (iteration over
    \<open>values()\<close> is the draw order), so it is an association list with the update and
    delete of a Python dict;
  \<^item> the Tk canvas is the part of the toolkit that answers \<open>find_overlapping\<close>; it is
    modelled as a display list, lowest item first, which is the order in which Tk
    returns the items it finds;
  \<^item> a Python exception leaving a handler is the left summand of the handler's result.
  Coordinates are Python ints (Tk delivers integer pointer positions and the inspector
  converts its text with \<open>int\<close>).
\<close>

subsection \<open>Dictionaries with insertion order\<close>

fun dict_set :: "'k \<Rightarrow> 'v \<Rightarrow> ('k \<times> 'v) list \<Rightarrow> ('k \<times> 'v) list" where
  "dict_set k v [] = [(k, v)]"
| "dict_set k v (e # d) = (if fst e = k then (k, v) # d else e # dict_set k v d)"

definition dict_get :: "'k \<Rightarrow> ('k \<times> 'v) list \<Rightarrow> 'v option" where
  "dict_get k d = map_of d k"

definition dict_contains :: "'k \<Rightarrow> ('k \<times> 'v) list \<Rightarrow> bool" where
  "dict_contains k d = (k \<in> set (map fst d))"

definition dict_del :: "'k \<Rightarrow> ('k \<times> 'v) list \<Rightarrow> ('k \<times> 'v) list" where
  "dict_del k d = filter (\<lambda>e. fst e \<noteq> k) d"

definition dict_values :: "('k \<times> 'v) list \<Rightarrow> 'v list" where
  "dict_values d = map snd d"

subsection \<open>Class Sprite\<close>

text \<open>
  \<open>photo\<close> is an \<open>ImageTk.PhotoImage\<close>: the identity of the image object and the size
  it was resized to. The fields \<open>id\<close>, \<open>name\<close>, \<open>x\<close> and \<open>y\<close> of the class carry the
  prefix \<open>sprite_\<close> here; the field \<open>engine\<close> (a back pointer that no method reads) is
  left out.
\<close>

record photo =
  photo_ref :: nat
  photo_width :: int
  photo_height :: int

record sprite =
  sprite_id :: string
  sprite_name :: string
  sprite_x :: int
  sprite_y :: int
  texture :: "photo option"
  color :: string
  width :: int
  height :: int
  draggable :: bool
  is_dragging :: bool
  drag_offset_x :: int
  drag_offset_y :: int
  canvas_id :: "nat option"
  script :: "string option"

definition Sprite_init :: "string \<Rightarrow> string \<Rightarrow> int \<Rightarrow> int \<Rightarrow> sprite" where
  "Sprite_init uuid4 nm px py =
     \<lparr>sprite_id = uuid4, sprite_name = nm, sprite_x = px, sprite_y = py,
      texture = None, color = ''white'', width = 50, height = 50,
      draggable = True, is_dragging = False, drag_offset_x = 0, drag_offset_y = 0,
      canvas_id = None, script = None\<rparr>"

text \<open>
  \<open>load_texture\<close>: the argument is what \<open>Image.open\<close> and \<open>ImageTk.PhotoImage\<close> give
  for the path, \<open>None\<close> when the file cannot be decoded; \<open>resize\<close> raises on a size
  that is not positive. Every exception is caught and turned into \<open>False\<close>.
\<close>

definition load_texture :: "nat option \<Rightarrow> sprite \<Rightarrow> sprite \<times> bool" where
  "load_texture decoded sp =
     (case decoded of
        None \<Rightarrow> (sp, False)
      | Some pref \<Rightarrow>
          if width sp \<le> 0 \<or> height sp \<le> 0 then (sp, False)
          else (sp\<lparr>texture := Some \<lparr>photo_ref = pref, photo_width = width sp,
                                       photo_height = height sp\<rparr>\<rparr>, True))"

definition contains_point :: "sprite \<Rightarrow> int \<Rightarrow> int \<Rightarrow> bool" where
  "contains_point sp px py =
     (sprite_x sp \<le> px \<and> px \<le> sprite_x sp + width sp \<and>
      sprite_y sp \<le> py \<and> py \<le> sprite_y sp + height sp)"

definition start_drag :: "int \<Rightarrow> int \<Rightarrow> sprite \<Rightarrow> sprite" where
  "start_drag px py sp =
     (if draggable sp
      then sp\<lparr>is_dragging := True,
              drag_offset_x := px - sprite_x sp,
              drag_offset_y := py - sprite_y sp\<rparr>
      else sp)"

definition update_drag :: "int \<Rightarrow> int \<Rightarrow> sprite \<Rightarrow> sprite" where
  "update_drag px py sp =
     (if is_dragging sp
      then sp\<lparr>sprite_x := px - drag_offset_x sp, sprite_y := py - drag_offset_y sp\<rparr>
      else sp)"

definition end_drag :: "sprite \<Rightarrow> sprite" where
  "end_drag sp = sp\<lparr>is_dragging := False\<rparr>"

definition duplicate :: "string \<Rightarrow> sprite \<Rightarrow> sprite" where
  "duplicate uuid4 sp =
     (let new_sprite = Sprite_init uuid4 (sprite_name sp @ ''_copy'')
                         (sprite_x sp + 20) (sprite_y sp + 20);
          new_sprite = new_sprite\<lparr>color := color sp\<rparr>;
          new_sprite = new_sprite\<lparr>width := width sp\<rparr>;
          new_sprite = new_sprite\<lparr>height := height sp\<rparr>;
          new_sprite = new_sprite\<lparr>draggable := draggable sp\<rparr>
      in if texture sp \<noteq> None then new_sprite\<lparr>texture := texture sp\<rparr> else new_sprite)"

definition add_script :: "string \<Rightarrow> sprite \<Rightarrow> sprite" where
  "add_script script_content sp = sp\<lparr>script := Some script_content\<rparr>"

subsection \<open>The Tk canvas\<close>

text \<open>
  The canvas keeps its items in a display list; an item created later lies above the
  earlier ones, and item ids count upwards from 1 and are never given out twice.
  \<open>find_overlapping\<close> returns the ids of the items that meet the given region in
  stacking order, the lowest first. A filled rectangle item with its one-pixel outline
  meets every region that reaches one of its edges; an image item covers the pixels from
  its anchor up to, not including, anchor plus size. \<open>gettags\<close> of an id that is not on
  the canvas is empty.
\<close>

datatype shape = Rectangle int int int int | Image int int photo

record canvas_item =
  item_id :: nat
  item_shape :: shape
  item_tags :: "string list"

record tk_canvas =
  items :: "canvas_item list"
  next_item :: nat

fun overlaps :: "shape \<Rightarrow> int \<Rightarrow> int \<Rightarrow> int \<Rightarrow> int \<Rightarrow> bool" where
  "overlaps (Rectangle a b c d) x1 y1 x2 y2 =
     (min a c \<le> x2 \<and> x1 \<le> max a c \<and> min b d \<le> y2 \<and> y1 \<le> max b d)"
| "overlaps (Image a b p) x1 y1 x2 y2 =
     (a < x2 \<and> x1 < a + photo_width p \<and> b < y2 \<and> y1 < b + photo_height p)"

definition canvas_delete :: "nat \<Rightarrow> tk_canvas \<Rightarrow> tk_canvas" where
  "canvas_delete n c = c\<lparr>items := filter (\<lambda>it. item_id it \<noteq> n) (items c)\<rparr>"

definition canvas_delete_all :: "tk_canvas \<Rightarrow> tk_canvas" where
  "canvas_delete_all c = c\<lparr>items := []\<rparr>"

definition canvas_create :: "shape \<Rightarrow> string list \<Rightarrow> tk_canvas \<Rightarrow> nat \<times> tk_canvas" where
  "canvas_create sh tags c =
     (next_item c,
      c\<lparr>items := items c @ [\<lparr>item_id = next_item c, item_shape = sh, item_tags = tags\<rparr>],
        next_item := Suc (next_item c)\<rparr>)"

definition find_overlapping :: "int \<Rightarrow> int \<Rightarrow> int \<Rightarrow> int \<Rightarrow> tk_canvas \<Rightarrow> nat list" where
  "find_overlapping x1 y1 x2 y2 c =
     map item_id (filter (\<lambda>it. overlaps (item_shape it) x1 y1 x2 y2) (items c))"

definition gettags :: "nat \<Rightarrow> tk_canvas \<Rightarrow> string list" where
  "gettags n c =
     (case find (\<lambda>it. item_id it = n) (items c) of
        None \<Rightarrow> []
      | Some it \<Rightarrow> item_tags it)"

text \<open>
  \<open>Sprite.draw\<close>: the new canvas and the sprite with its new \<open>canvas_id\<close>. Both
  branches delete the old item and create one with the tags \<open>("sprite", self.id)\<close>;
  \<open>drawn_shape\<close> is what they create, \<open>create_image\<close> with the texture or
  \<open>create_rectangle\<close> with the box of the sprite.
\<close>

definition drawn_shape :: "sprite \<Rightarrow> shape" where
  "drawn_shape sp =
     (case texture sp of
        Some p \<Rightarrow> Image (sprite_x sp) (sprite_y sp) p
      | None \<Rightarrow> Rectangle (sprite_x sp) (sprite_y sp)
                  (sprite_x sp + width sp) (sprite_y sp + height sp))"

definition draw :: "sprite \<Rightarrow> tk_canvas \<Rightarrow> sprite \<times> tk_canvas" where
  "draw sp c =
     (let c0 = (case canvas_id sp of
                  None \<Rightarrow> c
                | Some n \<Rightarrow> if n \<noteq> 0 then canvas_delete n c else c);
          (n, c1) = canvas_create (drawn_shape sp) [''sprite'', sprite_id sp] c0
      in (sp\<lparr>canvas_id := Some n\<rparr>, c1))"

subsection \<open>Class FlamingEngine\<close>

type_synonym ref = nat

datatype error = IndexError | ValueError

record engine =
  heap :: "ref \<Rightarrow> sprite"
  next_ref :: ref
  sprites :: "(string \<times> ref) list"
  selected_sprite :: "ref option"
  is_running :: bool
  drag_source :: "string option"
  canvas :: tk_canvas

definition new_object :: "sprite \<Rightarrow> engine \<Rightarrow> ref \<times> engine" where
  "new_object sp s =
     (next_ref s, s\<lparr>heap := (heap s)(next_ref s := sp), next_ref := Suc (next_ref s)\<rparr>)"

definition modify :: "ref \<Rightarrow> (sprite \<Rightarrow> sprite) \<Rightarrow> engine \<Rightarrow> engine" where
  "modify r f s = s\<lparr>heap := (heap s)(r := f (heap s r))\<rparr>"

definition create_sprite :: "string \<Rightarrow> string \<Rightarrow> int \<Rightarrow> int \<Rightarrow> engine \<Rightarrow> ref \<times> engine" where
  "create_sprite uuid4 nm px py s =
     (let (r, s1) = new_object (Sprite_init uuid4 nm px py) s
      in (r, s1\<lparr>sprites := dict_set (sprite_id (heap s1 r)) r (sprites s1)\<rparr>))"

definition engine_load_texture :: "nat option \<Rightarrow> engine \<Rightarrow> engine" where
  "engine_load_texture decoded s =
     (case selected_sprite s of
        None \<Rightarrow> s
      | Some r \<Rightarrow> modify r (\<lambda>sp. fst (load_texture decoded sp)) s)"

datatype property = Name string | X int | Y int

definition setattr :: "property \<Rightarrow> sprite \<Rightarrow> sprite" where
  "setattr p sp =
     (case p of
        Name v \<Rightarrow> sp\<lparr>sprite_name := v\<rparr>
      | X v \<Rightarrow> sp\<lparr>sprite_x := v\<rparr>
      | Y v \<Rightarrow> sp\<lparr>sprite_y := v\<rparr>)"

definition update_sprite_property :: "property \<Rightarrow> engine \<Rightarrow> engine" where
  "update_sprite_property p s =
     (case selected_sprite s of
        None \<Rightarrow> s
      | Some r \<Rightarrow> modify r (setattr p) s)"

text \<open>
  Python's \<open>int\<close> on the text of an entry, for ASCII text: surrounding white space is
  dropped, then an optional sign, then decimal digits, where single underscores may
  stand between digits. Anything else raises \<open>ValueError\<close>, here \<open>None\<close>.
\<close>

definition is_space :: "char \<Rightarrow> bool" where
  "is_space c = ((of_char c :: nat) \<in> set [9, 10, 11, 12, 13, 28, 29, 30, 31, 32])"

definition is_digit :: "char \<Rightarrow> bool" where
  "is_digit c = (48 \<le> (of_char c :: nat) \<and> (of_char c :: nat) \<le> 57)"

definition strip :: "string \<Rightarrow> string" where
  "strip t = rev (dropWhile is_space (rev (dropWhile is_space t)))"

fun py_digits :: "int \<Rightarrow> bool \<Rightarrow> string \<Rightarrow> int option" where
  "py_digits acc after_digit [] = (if after_digit then Some acc else None)"
| "py_digits acc after_digit (c # cs) =
     (if is_digit c then py_digits (10 * acc + (int (of_char c) - 48)) True cs
      else if c = CHR ''_'' \<and> after_digit then py_digits acc False cs
      else None)"

definition py_int :: "string \<Rightarrow> int option" where
  "py_int t =
     (case strip t of
        [] \<Rightarrow> None
      | c # cs \<Rightarrow>
          if c = CHR ''-'' then map_option uminus (py_digits 0 False cs)
          else if c = CHR ''+'' then py_digits 0 False cs
          else py_digits 0 False (c # cs))"

text \<open>
  The handlers that \<open>update_inspector\<close> binds to the entries of the inspector: the
  argument is the text of the entry, and \<open>int\<close> is applied to it before
  \<open>update_sprite_property\<close> is called.
\<close>

definition name_entry_focus_out :: "string \<Rightarrow> engine \<Rightarrow> error + engine" where
  "name_entry_focus_out t s = Inr (update_sprite_property (Name t) s)"

definition x_entry_focus_out :: "string \<Rightarrow> engine \<Rightarrow> error + engine" where
  "x_entry_focus_out t s =
     (case py_int t of
        None \<Rightarrow> Inl ValueError
      | Some v \<Rightarrow> Inr (update_sprite_property (X v) s))"

definition y_entry_focus_out :: "string \<Rightarrow> engine \<Rightarrow> error + engine" where
  "y_entry_focus_out t s =
     (case py_int t of
        None \<Rightarrow> Inl ValueError
      | Some v \<Rightarrow> Inr (update_sprite_property (Y v) s))"

text \<open>
  The scene tree and the inspector are widgets: \<open>update_scene_tree\<close> and
  \<open>update_inspector\<close> rebuild them from the state and change nothing in it, so they
  have no counterpart here. \<open>update_scene_tree\<close> runs after every change of the
  dictionary and gives the tree one row for every sprite, named by the sprite's \<open>id\<close>;
  the calls \<open>scene_tree.selection_set(clicked_sprite.id)\<close> of the click handlers
  therefore name a row that exists. What the handlers read from the tree is an argument:
  for \<open>on_sprite_select\<close> the tuple \<open>self.scene_tree.selection()\<close> at the time of
  the event.
\<close>

definition on_sprite_select :: "string list \<Rightarrow> engine \<Rightarrow> error + engine" where
  "on_sprite_select selection s =
     (case selection of
        [] \<Rightarrow> Inl IndexError
      | item # _ \<Rightarrow> Inr (s\<lparr>selected_sprite := dict_get item (sprites s)\<rparr>))"

text \<open>
  The loop of \<open>on_canvas_click\<close> and \<open>on_right_click\<close> over the items that
  \<open>find_overlapping\<close> returned: it stops at the first item that carries the tag
  \<open>sprite\<close> and looks its second tag up in the dictionary.
\<close>

fun find_clicked_sprite :: "engine \<Rightarrow> nat list \<Rightarrow> error + ref option" where
  "find_clicked_sprite s [] = Inr None"
| "find_clicked_sprite s (item # rest) =
     (let tags = gettags item (canvas s)
      in if ''sprite'' \<in> set tags
         then (case tags of
                 _ # key # _ \<Rightarrow> Inr (dict_get key (sprites s))
               | _ \<Rightarrow> Inl IndexError)
         else find_clicked_sprite s rest)"

definition clicked_sprite :: "int \<Rightarrow> int \<Rightarrow> engine \<Rightarrow> error + ref option" where
  "clicked_sprite ex ey s =
     find_clicked_sprite s (find_overlapping ex ey (ex + 1) (ey + 1) (canvas s))"

definition on_canvas_click :: "int \<Rightarrow> int \<Rightarrow> engine \<Rightarrow> error + engine" where
  "on_canvas_click ex ey s =
     (case clicked_sprite ex ey s of
        Inl e \<Rightarrow> Inl e
      | Inr None \<Rightarrow> Inr s
      | Inr (Some r) \<Rightarrow> Inr (modify r (start_drag ex ey) (s\<lparr>selected_sprite := Some r\<rparr>)))"

definition on_right_click :: "int \<Rightarrow> int \<Rightarrow> engine \<Rightarrow> error + engine" where
  "on_right_click ex ey s =
     (case clicked_sprite ex ey s of
        Inl e \<Rightarrow> Inl e
      | Inr None \<Rightarrow> Inr s
      | Inr (Some r) \<Rightarrow> Inr (s\<lparr>selected_sprite := Some r\<rparr>))"

definition draw_sprite :: "ref \<Rightarrow> engine \<Rightarrow> engine" where
  "draw_sprite r s =
     (let (sp, c) = draw (heap s r) (canvas s)
      in s\<lparr>heap := (heap s)(r := sp), canvas := c\<rparr>)"

definition render :: "engine \<Rightarrow> engine" where
  "render s =
     fold draw_sprite (dict_values (sprites s)) (s\<lparr>canvas := canvas_delete_all (canvas s)\<rparr>)"

definition on_canvas_drag :: "int \<Rightarrow> int \<Rightarrow> engine \<Rightarrow> engine" where
  "on_canvas_drag ex ey s =
     (case selected_sprite s of
        None \<Rightarrow> s
      | Some r \<Rightarrow> render (modify r (update_drag ex ey) s))"

definition on_canvas_release :: "engine \<Rightarrow> engine" where
  "on_canvas_release s =
     (case selected_sprite s of
        None \<Rightarrow> s
      | Some r \<Rightarrow> modify r end_drag s)"

text \<open>
  The tree drag: \<open>start_tree_drag\<close> gets the row that \<open>identify_row\<close> found (the empty
  string when there is none), \<open>end_tree_drag\<close> the pointer position together with the
  width of the left panel and the height of the canvas.
\<close>

definition start_tree_drag :: "string \<Rightarrow> engine \<Rightarrow> engine" where
  "start_tree_drag item s = (if item \<noteq> [] then s\<lparr>drag_source := Some item\<rparr> else s)"

definition end_tree_drag :: "string \<Rightarrow> int \<Rightarrow> int \<Rightarrow> int \<Rightarrow> int \<Rightarrow> engine \<Rightarrow> engine" where
  "end_tree_drag uuid4 ex ey panel_width canvas_height s =
     (case drag_source s of
        None \<Rightarrow> s
      | Some src \<Rightarrow>
          if src = [] then s
          else
            (let s1 =
               (if ex > panel_width \<and> ey < canvas_height
                then (case dict_get src (sprites s) of
                        None \<Rightarrow> s
                      | Some original \<Rightarrow>
                          (let new_sprite = duplicate uuid4 (heap s original);
                               new_sprite = new_sprite\<lparr>sprite_x := ex - panel_width\<rparr>;
                               new_sprite = new_sprite\<lparr>sprite_y := ey\<rparr>;
                               (r, s') = new_object new_sprite s
                           in s'\<lparr>sprites := dict_set (sprite_id (heap s' r)) r (sprites s')\<rparr>))
                else s)
             in s1\<lparr>drag_source := None\<rparr>))"

definition duplicate_sprite :: "string \<Rightarrow> ref option \<Rightarrow> engine \<Rightarrow> engine" where
  "duplicate_sprite uuid4 arg s =
     (case arg of
        None \<Rightarrow> s
      | Some original \<Rightarrow>
          (let (r, s') = new_object (duplicate uuid4 (heap s original)) s
           in s'\<lparr>sprites := dict_set (sprite_id (heap s' r)) r (sprites s')\<rparr>))"

definition remove_sprite :: "ref option \<Rightarrow> engine \<Rightarrow> engine" where
  "remove_sprite arg s =
     (case arg of
        None \<Rightarrow> s
      | Some r \<Rightarrow>
          if dict_contains (sprite_id (heap s r)) (sprites s)
          then s\<lparr>sprites := dict_del (sprite_id (heap s r)) (sprites s),
                 selected_sprite := None\<rparr>
          else s)"

definition game_loop :: "engine \<Rightarrow> engine" where
  "game_loop s = (if \<not> is_running s then s else render s)"

definition start :: "engine \<Rightarrow> engine" where
  "start s = game_loop (s\<lparr>is_running := True\<rparr>)"

definition stop :: "engine \<Rightarrow> engine" where
  "stop s = s\<lparr>is_running := False\<rparr>"

text \<open>
  \<open>FlamingEngine.__init__\<close> creates the test sprite and recolours it;
  \<open>FlamingEngineIDE.__init__\<close> then starts the loop, whose first pass renders.
\<close>

definition empty_engine :: engine where
  "empty_engine =
     \<lparr>heap = (\<lambda>_. Sprite_init [] [] 0 0), next_ref = 0, sprites = [],
      selected_sprite = None, is_running = False, drag_source = None,
      canvas = \<lparr>items = [], next_item = 1\<rparr>\<rparr>"

definition FlamingEngine_init :: "string \<Rightarrow> engine" where
  "FlamingEngine_init uuid4 =
     (let (test_sprite, s) = create_sprite uuid4 ''TestObject'' 100 100 empty_engine
      in modify test_sprite (\<lambda>sp. sp\<lparr>color := ''#3498db''\<rparr>) s)"

definition FlamingEngineIDE_init :: "string \<Rightarrow> engine" where
  "FlamingEngineIDE_init uuid4 = start (FlamingEngine_init uuid4)"

subsection \<open>Events\<close>

text \<open>
  One constructor for each way the program is driven: the bound widget events with the
  data Tk delivers, the two commands of the context menu (both act on
  \<open>selected_sprite\<close>), the timer of the game loop, the texture dialog, and a call of
  \<open>create_sprite\<close>. Where the handler constructs a \<open>Sprite\<close> the event carries the
  string \<open>uuid4\<close> returns.
\<close>

datatype event =
    CreateSprite string string int int
  | LoadTexture "nat option"
  | NameFocusOut string
  | XFocusOut string
  | YFocusOut string
  | TreeviewSelect "string list"
  | CanvasClick int int
  | RightClick int int
  | CanvasDrag int int
  | CanvasRelease
  | TreePress string
  | TreeRelease string int int int int
  | MenuDuplicate string
  | MenuRemove
  | Timer

fun step :: "event \<Rightarrow> engine \<Rightarrow> error + engine" where
  "step (CreateSprite uuid4 nm px py) s = Inr (snd (create_sprite uuid4 nm px py s))"
| "step (LoadTexture decoded) s = Inr (engine_load_texture decoded s)"
| "step (NameFocusOut t) s = name_entry_focus_out t s"
| "step (XFocusOut t) s = x_entry_focus_out t s"
| "step (YFocusOut t) s = y_entry_focus_out t s"
| "step (TreeviewSelect selection) s = on_sprite_select selection s"
| "step (CanvasClick ex ey) s = on_canvas_click ex ey s"
| "step (RightClick ex ey) s = on_right_click ex ey s"
| "step (CanvasDrag ex ey) s = Inr (on_canvas_drag ex ey s)"
| "step CanvasRelease s = Inr (on_canvas_release s)"
| "step (TreePress item) s = Inr (start_tree_drag item s)"
| "step (TreeRelease uuid4 ex ey pw ch) s = Inr (end_tree_drag uuid4 ex ey pw ch s)"
| "step (MenuDuplicate uuid4) s = Inr (duplicate_sprite uuid4 (selected_sprite s) s)"
| "step MenuRemove s = Inr (remove_sprite (selected_sprite s) s)"
| "step Timer s = Inr (game_loop s)"

text \<open>
  An exception that leaves a handler is reported by Tk's callback wrapper and the main
  loop goes on. Every \<open>raise\<close> of the handlers above happens before the first
  assignment, so the state after a failed handler is the state before it.
\<close>

definition after :: "event \<Rightarrow> engine \<Rightarrow> engine" where
  "after ev s = (case step ev s of Inl e \<Rightarrow> s | Inr s' \<Rightarrow> s')"

definition run :: "event list \<Rightarrow> engine \<Rightarrow> engine" where
  "run evs s = fold after evs s"

fun draws :: "event \<Rightarrow> string list" where
  "draws (CreateSprite uuid4 nm px py) = [uuid4]"
| "draws (TreeRelease uuid4 ex ey pw ch) = [uuid4]"
| "draws (MenuDuplicate uuid4) = [uuid4]"
| "draws ev = []"


subsection \<open>Scenes used as examples\<close>

text \<open>
  \<open>scene_one\<close>: the program after start-up, the test sprite clicked (and so selected).
  \<open>scene_two\<close>: the test sprite clicked, duplicated from the context menu, rendered and
  clicked again; it holds the test sprite (object 0, at (100, 100)) and its copy
  (object 1, at (120, 120)), drawn in this order, with the test sprite selected.
  \<open>scene_scripted\<close>: \<open>scene_one\<close> after a texture was loaded and a script was saved
  for the test sprite.
  \<open>scene_fixed\<close>: the program after start-up with the \<open>draggable\<close> flag of the test
  sprite cleared (no handler clears it; the field is set by hand) and nothing selected.
\<close>

definition scene_one :: engine where
  "scene_one = run [CanvasClick 110 110, CanvasRelease] (FlamingEngineIDE_init ''a'')"

definition scene_two :: engine where
  "scene_two =
     run [CanvasClick 110 110, CanvasRelease, MenuDuplicate ''b'', Timer,
          CanvasClick 110 110, CanvasRelease] (FlamingEngineIDE_init ''a'')"

definition scene_scripted :: engine where
  "scene_scripted =
     modify 0 (add_script ''print(1)'') (run [LoadTexture (Some 7)] scene_one)"


subsection \<open>Well-formed scenes\<close>

text \<open>
  Three properties of the states the program reaches, used as hypotheses below.
  \<open>keyed_by_id\<close>: every sprite of the dictionary is stored under its own \<open>id\<close>, no
  key occurs twice, and the objects have been allocated. \<open>canvas_ids_issued\<close>: the
  \<open>canvas_id\<close> a sprite remembers is an id the canvas has given out.
  \<open>selection_present\<close>: \<open>selected_sprite\<close> is \<open>None\<close> or one of the sprites of the
  dictionary.

  \<open>fresh_items\<close> lists the canvas items that drawing the given sprites in order creates,
  and \<open>only_canvas_id\<close> relates a sprite to itself with another \<open>canvas_id\<close>; both
  serve the proofs about \<open>render\<close>.
\<close>

definition keyed_by_id :: "engine \<Rightarrow> bool" where
  "keyed_by_id s =
     (distinct (map fst (sprites s)) \<and>
      (\<forall>e \<in> set (sprites s). sprite_id (heap s (snd e)) = fst e \<and> snd e < next_ref s))"

fun issued_before :: "nat \<Rightarrow> nat option \<Rightarrow> bool" where
  "issued_before m None = True"
| "issued_before m (Some n) = (n < m)"

definition canvas_ids_issued :: "engine \<Rightarrow> bool" where
  "canvas_ids_issued s =
     (\<forall>r \<in> set (dict_values (sprites s)).
        issued_before (next_item (canvas s)) (canvas_id (heap s r)))"

definition selection_present :: "engine \<Rightarrow> bool" where
  "selection_present s = (set_option (selected_sprite s) \<subseteq> set (dict_values (sprites s)))"

fun fresh_items :: "(ref \<Rightarrow> sprite) \<Rightarrow> ref list \<Rightarrow> nat \<Rightarrow> canvas_item list" where
  "fresh_items h [] n = []"
| "fresh_items h (r # rs) n =
     \<lparr>item_id = n, item_shape = drawn_shape (h r), item_tags = [''sprite'', sprite_id (h r)]\<rparr>
       # fresh_items h rs (Suc n)"

definition only_canvas_id :: "sprite \<Rightarrow> sprite \<Rightarrow> bool" where
  "only_canvas_id sp sp' = (sp'\<lparr>canvas_id := None\<rparr> = sp\<lparr>canvas_id := None\<rparr>)"

text \<open>
  \<open>well_formed\<close> is the conjunction of the three properties. \<open>extends U s s'\<close> relates
  a state to a later one: every key of the later dictionary is a key of the earlier one
  or in \<open>U\<close>, no object has been given up, and the objects of the earlier state have
  kept their \<open>id\<close>. \<open>added sp s\<close> is \<open>s\<close> after a new object \<open>sp\<close> has
  been allocated and stored under its \<open>id\<close>, which is what \<open>create_sprite\<close>,
  \<open>duplicate_sprite\<close> and \<open>end_tree_drag\<close> do with the sprite they construct.
\<close>

definition well_formed :: "engine \<Rightarrow> bool" where
  "well_formed s = (keyed_by_id s \<and> canvas_ids_issued s \<and> selection_present s)"

definition extends :: "string set \<Rightarrow> engine \<Rightarrow> engine \<Rightarrow> bool" where
  "extends U s s' =
     (fst ` set (sprites s') \<subseteq> fst ` set (sprites s) \<union> U \<and>
      next_ref s \<le> next_ref s' \<and>
      (\<forall>r < next_ref s. sprite_id (heap s' r) = sprite_id (heap s r)))"

definition added :: "sprite \<Rightarrow> engine \<Rightarrow> engine" where
  "added sp s =
     s\<lparr>heap := (heap s)(next_ref s := sp), next_ref := Suc (next_ref s),
       sprites := dict_set (sprite_id sp) (next_ref s) (sprites s)\<rparr>"

definition keeps :: "string set \<Rightarrow> engine \<Rightarrow> engine \<Rightarrow> bool" where
  "keeps U s s' = (well_formed s' \<and> extends U s s')"

section \<open>Evaluation\<close>

lemmas sprite_defs =
  Sprite_init_def load_texture_def contains_point_def start_drag_def update_drag_def
  end_drag_def duplicate_def add_script_def setattr_def

lemmas canvas_defs =
  canvas_delete_def canvas_delete_all_def canvas_create_def find_overlapping_def
  gettags_def drawn_shape_def draw_def

lemmas dict_defs = dict_get_def dict_contains_def dict_del_def dict_values_def

lemmas engine_defs =
  new_object_def modify_def create_sprite_def engine_load_texture_def
  update_sprite_property_def name_entry_focus_out_def x_entry_focus_out_def
  y_entry_focus_out_def on_sprite_select_def clicked_sprite_def on_canvas_click_def
  on_right_click_def draw_sprite_def render_def on_canvas_drag_def on_canvas_release_def
  start_tree_drag_def end_tree_drag_def duplicate_sprite_def remove_sprite_def
  game_loop_def start_def stop_def empty_engine_def FlamingEngine_init_def
  FlamingEngineIDE_init_def after_def run_def


lemmas model_defs = sprite_defs canvas_defs dict_defs engine_defs Let_def

lemma scene_one_eval:
  "sprites scene_one = [(''a'', 0)]"
  "selected_sprite scene_one = Some 0"
  "next_ref scene_one = 1"
  "heap scene_one 0 =
     \<lparr>sprite_id = ''a'', sprite_name = ''TestObject'', sprite_x = 100, sprite_y = 100,
      texture = None, color = ''#3498db'', width = 50, height = 50,
      draggable = True, is_dragging = False, drag_offset_x = 10, drag_offset_y = 10,
      canvas_id = Some 1, script = None\<rparr>"
  "canvas scene_one =
     \<lparr>items = [\<lparr>item_id = 1, item_shape = Rectangle 100 100 150 150,
                 item_tags = [''sprite'', ''a'']\<rparr>],
      next_item = 2\<rparr>"
  by (simp_all add: scene_one_def model_defs)

lemma scene_two_eval:
  "sprites scene_two = [(''a'', 0), (''b'', 1)]"
  "selected_sprite scene_two = Some 0"
  "next_ref scene_two = 2"
  "heap scene_two 0 =
     \<lparr>sprite_id = ''a'', sprite_name = ''TestObject'', sprite_x = 100, sprite_y = 100,
      texture = None, color = ''#3498db'', width = 50, height = 50,
      draggable = True, is_dragging = False, drag_offset_x = 10, drag_offset_y = 10,
      canvas_id = Some 2, script = None\<rparr>"
  "heap scene_two 1 =
     \<lparr>sprite_id = ''b'', sprite_name = ''TestObject_copy'', sprite_x = 120, sprite_y = 120,
      texture = None, color = ''#3498db'', width = 50, height = 50,
      draggable = True, is_dragging = False, drag_offset_x = 0, drag_offset_y = 0,
      canvas_id = Some 3, script = None\<rparr>"
  "heap scene_two (Suc 0) =
     \<lparr>sprite_id = ''b'', sprite_name = ''TestObject_copy'', sprite_x = 120, sprite_y = 120,
      texture = None, color = ''#3498db'', width = 50, height = 50,
      draggable = True, is_dragging = False, drag_offset_x = 0, drag_offset_y = 0,
      canvas_id = Some 3, script = None\<rparr>"
  "canvas scene_two =
     \<lparr>items = [\<lparr>item_id = 2, item_shape = Rectangle 100 100 150 150,
                 item_tags = [''sprite'', ''a'']\<rparr>,
                \<lparr>item_id = 3, item_shape = Rectangle 120 120 170 170,
                 item_tags = [''sprite'', ''b'']\<rparr>],
      next_item = 4\<rparr>"
  by (simp_all add: scene_two_def model_defs)

section \<open>Rendering and the loop over the items found\<close>

lemma only_canvas_id_refl [simp]: "only_canvas_id sp sp"
  by (simp add: only_canvas_id_def)

lemma only_canvas_id_update [simp]: "only_canvas_id sp (sp\<lparr>canvas_id := n\<rparr>)"
  by (simp add: only_canvas_id_def)

lemma only_canvas_id_trans:
  "only_canvas_id a b \<Longrightarrow> only_canvas_id b c \<Longrightarrow> only_canvas_id a c"
  by (simp add: only_canvas_id_def)

lemma only_canvas_id_fields:
  assumes "only_canvas_id sp sp'"
  shows "sprite_id sp' = sprite_id sp" and "drawn_shape sp' = drawn_shape sp"
proof -
  have e: "sp'\<lparr>canvas_id := None\<rparr> = sp\<lparr>canvas_id := None\<rparr>"
    using assms by (simp add: only_canvas_id_def)
  from arg_cong [OF e, of sprite_id] show "sprite_id sp' = sprite_id sp" by simp
  from arg_cong [OF e, of sprite_x] have x: "sprite_x sp' = sprite_x sp" by simp
  from arg_cong [OF e, of sprite_y] have y: "sprite_y sp' = sprite_y sp" by simp
  from arg_cong [OF e, of width] have w: "width sp' = width sp" by simp
  from arg_cong [OF e, of height] have h: "height sp' = height sp" by simp
  from arg_cong [OF e, of texture] have t: "texture sp' = texture sp" by simp
  show "drawn_shape sp' = drawn_shape sp"
    by (simp add: drawn_shape_def x y w h t split: option.splits)
qed

lemma draw_sprite_frame [simp]:
  "sprites (draw_sprite r s) = sprites s"
  "selected_sprite (draw_sprite r s) = selected_sprite s"
  "next_ref (draw_sprite r s) = next_ref s"
  "is_running (draw_sprite r s) = is_running s"
  "drag_source (draw_sprite r s) = drag_source s"
  "next_item (canvas (draw_sprite r s)) = Suc (next_item (canvas s))"
  "heap (draw_sprite r s) = (heap s)(r := (heap s r)\<lparr>canvas_id := Some (next_item (canvas s))\<rparr>)"
  by (simp_all add: draw_sprite_def draw_def canvas_create_def canvas_delete_def Let_def
      split: option.splits)

lemma draw_sprite_items:
  assumes "\<And>n. canvas_id (heap s r) = Some n \<Longrightarrow> \<forall>it \<in> set (items (canvas s)). item_id it \<noteq> n"
  shows "items (canvas (draw_sprite r s)) =
           items (canvas s) @ fresh_items (heap s) [r] (next_item (canvas s))"
proof -
  have "filter (\<lambda>it. item_id it \<noteq> n) (items (canvas s)) = items (canvas s)"
    if "canvas_id (heap s r) = Some n" for n
    using assms [OF that] by (simp add: filter_id_conv)
  then show ?thesis
    by (simp add: draw_sprite_def draw_def canvas_create_def canvas_delete_def Let_def
        split: option.splits)
qed

lemma fresh_items_cong:
  "(\<And>r. r \<in> set rs \<Longrightarrow> only_canvas_id (h r) (h' r)) \<Longrightarrow> fresh_items h' rs n = fresh_items h rs n"
  by (induction rs arbitrary: n) (simp_all add: only_canvas_id_fields)

lemma fold_draw_sprite_frame [simp]:
  "sprites (fold draw_sprite rs s) = sprites s"
  "selected_sprite (fold draw_sprite rs s) = selected_sprite s"
  "next_ref (fold draw_sprite rs s) = next_ref s"
  "is_running (fold draw_sprite rs s) = is_running s"
  "drag_source (fold draw_sprite rs s) = drag_source s"
  "next_item (canvas (fold draw_sprite rs s)) = next_item (canvas s) + length rs"
  by (induction rs arbitrary: s) simp_all

lemma fold_draw_sprite_other:
  "r \<notin> set rs \<Longrightarrow> heap (fold draw_sprite rs s) r = heap s r"
  by (induction rs arbitrary: s) auto

lemma fold_draw_sprite_heap:
  "only_canvas_id (heap s r) (heap (fold draw_sprite rs s) r)"
proof (induction rs arbitrary: s)
  case Nil
  show ?case by simp
next
  case (Cons a rs)
  have "only_canvas_id (heap s r) (heap (draw_sprite a s) r)"
    by simp
  with Cons [of "draw_sprite a s"] show ?case
    by (auto intro: only_canvas_id_trans)
qed

lemma fold_draw_sprite_canvas_id:
  "r \<in> set rs \<Longrightarrow>
   \<exists>n. canvas_id (heap (fold draw_sprite rs s) r) = Some n \<and> n < next_item (canvas s) + length rs"
proof (induction rs arbitrary: s)
  case Nil
  then show ?case by simp
next
  case (Cons a rs)
  show ?case
  proof (cases "r \<in> set rs")
    case True
    from Cons.IH [OF True, of "draw_sprite a s"] show ?thesis by auto
  next
    case False
    with Cons.prems have ra: "r = a" by simp
    show ?thesis
      using False by (simp add: fold_draw_sprite_other ra)
  qed
qed

lemma fold_draw_sprite_items:
  assumes "distinct rs"
    and "\<And>r n. r \<in> set rs \<Longrightarrow> canvas_id (heap s r) = Some n \<Longrightarrow> n < n0"
    and "\<And>it. it \<in> set (items (canvas s)) \<Longrightarrow> n0 \<le> item_id it"
    and "n0 \<le> next_item (canvas s)"
  shows "items (canvas (fold draw_sprite rs s)) =
           items (canvas s) @ fresh_items (heap s) rs (next_item (canvas s))"
  using assms
proof (induction rs arbitrary: s)
  case Nil
  show ?case by simp
next
  case (Cons a rs)
  let ?t = "draw_sprite a s"
  have old: "\<forall>it \<in> set (items (canvas s)). item_id it \<noteq> n" if "canvas_id (heap s a) = Some n" for n
    using Cons.prems(2) [of a n] Cons.prems(3) that by fastforce
  have it: "items (canvas ?t) = items (canvas s) @ fresh_items (heap s) [a] (next_item (canvas s))"
    by (rule draw_sprite_items) (use old in blast)
  have a: "a \<notin> set rs" "distinct rs"
    using Cons.prems(1) by simp_all
  have ids: "n < n0" if "r \<in> set rs" "canvas_id (heap ?t r) = Some n" for r n
  proof -
    have "r \<noteq> a" using that(1) a(1) by blast
    then have "canvas_id (heap s r) = Some n" using that(2) by simp
    then show ?thesis using Cons.prems(2) [of r n] that(1) by simp
  qed
  have low: "n0 \<le> item_id it'" if "it' \<in> set (items (canvas ?t))" for it'
    using that Cons.prems(3) [of it'] Cons.prems(4) by (auto simp: it)
  have nx: "n0 \<le> next_item (canvas ?t)"
    using Cons.prems(4) by simp
  have "items (canvas (fold draw_sprite rs ?t)) =
          items (canvas ?t) @ fresh_items (heap ?t) rs (next_item (canvas ?t))"
  proof (rule Cons.IH)
    show "distinct rs" by (rule a(2))
    show "n < n0" if "r \<in> set rs" "canvas_id (heap ?t r) = Some n" for r n
      using that by (rule ids)
    show "n0 \<le> item_id it'" if "it' \<in> set (items (canvas ?t))" for it'
      using that by (rule low)
    show "n0 \<le> next_item (canvas ?t)" by (rule nx)
  qed
  moreover have "fresh_items (heap ?t) rs n = fresh_items (heap s) rs n" for n
    by (rule fresh_items_cong) simp
  ultimately show ?case
    by (simp add: it)
qed

lemma render_frame [simp]:
  "sprites (render s) = sprites s"
  "selected_sprite (render s) = selected_sprite s"
  "next_ref (render s) = next_ref s"
  "is_running (render s) = is_running s"
  "drag_source (render s) = drag_source s"
  by (simp_all add: render_def)

lemma render_heap: "only_canvas_id (heap s r) (heap (render s) r)"
  using fold_draw_sprite_heap [of "s\<lparr>canvas := canvas_delete_all (canvas s)\<rparr>" r]
  by (simp add: render_def)

lemma render_items:
  assumes "distinct (dict_values (sprites s))" and "canvas_ids_issued s"
  shows "items (canvas (render s)) =
           fresh_items (heap s) (dict_values (sprites s)) (next_item (canvas s))"
proof -
  let ?s = "s\<lparr>canvas := canvas_delete_all (canvas s)\<rparr>"
  have "items (canvas (fold draw_sprite (dict_values (sprites s)) ?s)) =
          items (canvas ?s) @ fresh_items (heap ?s) (dict_values (sprites s)) (next_item (canvas ?s))"
  proof (rule fold_draw_sprite_items [where ?n0.0 = "next_item (canvas s)"])
    show "distinct (dict_values (sprites s))" by (rule assms(1))
    show "n < next_item (canvas s)"
      if "r \<in> set (dict_values (sprites s))" "canvas_id (heap ?s r) = Some n" for r n
      using that assms(2) by (fastforce simp: canvas_ids_issued_def)
    show "next_item (canvas s) \<le> item_id it" if "it \<in> set (items (canvas ?s))" for it
      using that by (simp add: canvas_delete_all_def)
    show "next_item (canvas s) \<le> next_item (canvas ?s)"
      by (simp add: canvas_delete_all_def)
  qed
  then show ?thesis
    by (simp add: render_def canvas_delete_all_def)
qed

lemma render_canvas_ids_issued: "canvas_ids_issued (render s)"
  unfolding canvas_ids_issued_def
proof
  fix r assume "r \<in> set (dict_values (sprites (render s)))"
  then have "r \<in> set (dict_values (sprites s))" by simp
  from fold_draw_sprite_canvas_id [OF this, of "s\<lparr>canvas := canvas_delete_all (canvas s)\<rparr>"]
  show "issued_before (next_item (canvas (render s))) (canvas_id (heap (render s) r))"
    by (auto simp: render_def)
qed

text \<open>The loop over the items found.\<close>

lemma find_by_id:
  "distinct (map item_id its) \<Longrightarrow> it \<in> set its \<Longrightarrow> find (\<lambda>i. item_id i = item_id it) its = Some it"
  by (induction its) (auto simp: rev_image_eqI)

lemma gettags_item:
  "distinct (map item_id (items c)) \<Longrightarrow> it \<in> set (items c) \<Longrightarrow> gettags (item_id it) c = item_tags it"
  by (simp add: gettags_def find_by_id)

lemma find_clicked_sprite_loop:
  assumes "\<And>it. it \<in> set its \<Longrightarrow>
             gettags (item_id it) (canvas s) = item_tags it \<and> (\<exists>k. item_tags it = [''sprite'', k])"
  shows "find_clicked_sprite s (map item_id (filter P its)) =
           Inr (Option.bind (map_option (\<lambda>it. item_tags it ! 1) (find P its))
                  (\<lambda>k. dict_get k (sprites s)))"
  using assms
proof (induction its)
  case Nil
  show ?case by simp
next
  case (Cons a its)
  from Cons.prems [of a] obtain k where
    a: "gettags (item_id a) (canvas s) = item_tags a" "item_tags a = [''sprite'', k]"
    by auto
  show ?case
  proof (cases "P a")
    case True
    then show ?thesis by (simp add: a)
  next
    case False
    then show ?thesis using Cons by simp
  qed
qed

lemma fresh_items_ids: "map item_id (fresh_items h rs n) = [n ..< n + length rs]"
  by (induction rs arbitrary: n) (simp_all add: upt_rec)

lemma fresh_items_tags:
  "it \<in> set (fresh_items h rs n) \<Longrightarrow> \<exists>k. item_tags it = [''sprite'', k]"
  by (induction rs arbitrary: n) auto

lemma find_fresh_items:
  "map_option (\<lambda>it. item_tags it ! 1) (find (\<lambda>it. P (item_shape it)) (fresh_items h rs n)) =
   map_option (\<lambda>r. sprite_id (h r)) (find (\<lambda>r. P (drawn_shape (h r))) rs)"
  by (induction rs arbitrary: n) simp_all

lemma dict_get_keyed:
  assumes "keyed_by_id s" and "r \<in> set (dict_values (sprites s))"
  shows "dict_get (sprite_id (heap s r)) (sprites s) = Some r"
proof -
  from assms(2) obtain k where kr: "(k, r) \<in> set (sprites s)"
    by (auto simp: dict_values_def)
  with assms(1) have "sprite_id (heap s r) = k"
    by (auto simp: keyed_by_id_def)
  moreover have "map_of (sprites s) k = Some r"
    using assms(1) kr by (simp add: keyed_by_id_def)
  ultimately show ?thesis
    by (simp add: dict_get_def)
qed

lemma keyed_distinct_values:
  assumes "keyed_by_id s"
  shows "distinct (dict_values (sprites s))"
proof -
  have "inj_on snd (set (sprites s))"
  proof (rule inj_onI)
    fix e e' assume "e \<in> set (sprites s)" "e' \<in> set (sprites s)" "snd e = snd e'"
    with assms have "fst e = fst e'"
      by (metis keyed_by_id_def)
    with \<open>snd e = snd e'\<close> show "e = e'"
      by (simp add: prod_eq_iff)
  qed
  moreover have "distinct (sprites s)"
    using assms by (simp add: keyed_by_id_def distinct_map)
  ultimately show ?thesis
    by (simp add: dict_values_def distinct_map)
qed

lemma contains_point_overlaps:
  assumes "contains_point sp px py" and "texture sp = None"
  shows "overlaps (drawn_shape sp) px py (px + 1) (py + 1)"
  using assms by (simp add: contains_point_def drawn_shape_def)

lemma click_after_render:
  assumes "keyed_by_id s" and "canvas_ids_issued s"
  shows "clicked_sprite ex ey (render s) =
           Inr (find (\<lambda>r. overlaps (drawn_shape (heap s r)) ex ey (ex + 1) (ey + 1))
                  (dict_values (sprites s)))"
proof -
  let ?rs = "dict_values (sprites s)"
  let ?P = "\<lambda>sh. overlaps sh ex ey (ex + 1) (ey + 1)"
  let ?its = "fresh_items (heap s) ?rs (next_item (canvas s))"
  have its: "items (canvas (render s)) = ?its"
    using assms by (simp add: render_items keyed_distinct_values)
  have d: "distinct (map item_id (items (canvas (render s))))"
    by (simp add: its fresh_items_ids)
  have tags: "gettags (item_id it) (canvas (render s)) = item_tags it \<and>
              (\<exists>k. item_tags it = [''sprite'', k])" if "it \<in> set ?its" for it
    using that d its gettags_item [of "canvas (render s)" it] fresh_items_tags [of it] by simp
  have "clicked_sprite ex ey (render s) =
          Inr (Option.bind (map_option (\<lambda>it. item_tags it ! 1) (find (\<lambda>it. ?P (item_shape it)) ?its))
                 (\<lambda>k. dict_get k (sprites s)))"
    using find_clicked_sprite_loop [of ?its "render s" "\<lambda>it. ?P (item_shape it)"] tags
    by (simp add: clicked_sprite_def find_overlapping_def its)
  also have "Option.bind (map_option (\<lambda>it. item_tags it ! 1) (find (\<lambda>it. ?P (item_shape it)) ?its))
                 (\<lambda>k. dict_get k (sprites s)) =
             Option.bind (map_option (\<lambda>r. sprite_id (heap s r)) (find (\<lambda>r. ?P (drawn_shape (heap s r))) ?rs))
                 (\<lambda>k. dict_get k (sprites s))"
    using find_fresh_items [of ?P "heap s" ?rs "next_item (canvas s)"] by simp
  also have "\<dots> = find (\<lambda>r. ?P (drawn_shape (heap s r))) ?rs"
  proof (cases "find (\<lambda>r. ?P (drawn_shape (heap s r))) ?rs")
    case None
    then show ?thesis by simp
  next
    case (Some r)
    then have "r \<in> set ?rs"
      by (auto simp: find_Some_iff)
    with assms(1) Some show ?thesis
      by (simp add: dict_get_keyed)
  qed
  finally show ?thesis .
qed

section \<open>What every event preserves\<close>


lemma extends_refl [simp]: "extends U s s"
  by (simp add: extends_def)

lemma extends_trans:
  assumes "extends U s s'" and "extends V s' s''"
  shows "extends (U \<union> V) s s''"
proof -
  have k: "fst ` set (sprites s'') \<subseteq> fst ` set (sprites s) \<union> (U \<union> V)"
    using assms by (simp add: extends_def) blast
  have n: "next_ref s \<le> next_ref s'" "next_ref s' \<le> next_ref s''"
    using assms by (simp_all add: extends_def)
  have "sprite_id (heap s'' r) = sprite_id (heap s r)" if "r < next_ref s" for r
  proof -
    have "r < next_ref s'" using that n(1) by simp
    then have "sprite_id (heap s'' r) = sprite_id (heap s' r)"
      using assms(2) by (simp add: extends_def)
    also have "\<dots> = sprite_id (heap s r)"
      using assms(1) that by (simp add: extends_def)
    finally show ?thesis .
  qed
  then show ?thesis
    using k n by (simp add: extends_def)
qed

lemma extends_mono: "extends U s s' \<Longrightarrow> U \<subseteq> V \<Longrightarrow> extends V s s'"
  by (auto simp: extends_def)

lemma dict_set_new: "k \<notin> set (map fst d) \<Longrightarrow> dict_set k v d = d @ [(k, v)]"
  by (induction d) auto

lemma keys_dict_set: "fst ` set (dict_set k v d) = insert k (fst ` set d)"
  by (induction d) auto

lemma well_formed_irrelevant [simp]:
  "well_formed (s\<lparr>drag_source := x\<rparr>) = well_formed s"
  "well_formed (s\<lparr>is_running := b\<rparr>) = well_formed s"
  by (simp_all add: well_formed_def keyed_by_id_def canvas_ids_issued_def selection_present_def)

lemma extends_irrelevant [simp]:
  "extends U s (s'\<lparr>drag_source := x\<rparr>) = extends U s s'"
  "extends U s (s'\<lparr>is_running := b\<rparr>) = extends U s s'"
  "extends U s (s'\<lparr>selected_sprite := y\<rparr>) = extends U s s'"
  by (simp_all add: extends_def)

lemma well_formed_select:
  assumes "well_formed s" and "set_option x \<subseteq> set (dict_values (sprites s))"
  shows "well_formed (s\<lparr>selected_sprite := x\<rparr>)"
  using assms
  by (simp add: well_formed_def keyed_by_id_def canvas_ids_issued_def selection_present_def)

lemma well_formed_modify:
  assumes "well_formed s"
    and "\<And>sp. sprite_id (f sp) = sprite_id sp" and "\<And>sp. canvas_id (f sp) = canvas_id sp"
  shows "well_formed (modify r f s)"
  using assms
  by (auto simp: well_formed_def keyed_by_id_def canvas_ids_issued_def selection_present_def
      modify_def)

lemma extends_modify:
  assumes "\<And>sp. sprite_id (f sp) = sprite_id sp"
  shows "extends U s (modify r f s)"
  using assms by (simp add: extends_def modify_def)

lemma well_formed_render:
  assumes "well_formed s"
  shows "well_formed (render s)"
proof -
  have "keyed_by_id (render s)"
    using assms only_canvas_id_fields(1) [OF render_heap]
    by (simp add: well_formed_def keyed_by_id_def)
  moreover have "selection_present (render s)"
    using assms by (simp add: well_formed_def selection_present_def)
  ultimately show ?thesis
    by (simp add: well_formed_def render_canvas_ids_issued)
qed

lemma extends_render: "extends U s (render s)"
  using only_canvas_id_fields(1) [OF render_heap] by (simp add: extends_def)

lemma well_formed_added:
  assumes "well_formed s" and "sprite_id sp \<notin> set (map fst (sprites s))" and "canvas_id sp = None"
  shows "well_formed (added sp s)"
proof -
  have sp: "sprites (added sp s) = sprites s @ [(sprite_id sp, next_ref s)]"
    using assms(2) by (simp add: added_def dict_set_new)
  have old: "snd e < next_ref s" "sprite_id (heap s (snd e)) = fst e" if "e \<in> set (sprites s)" for e
    using assms(1) that by (simp_all add: well_formed_def keyed_by_id_def)
  have hp: "heap (added sp s) r = (if r = next_ref s then sp else heap s r)" for r
    by (simp add: added_def)
  have nr: "next_ref (added sp s) = Suc (next_ref s)" "canvas (added sp s) = canvas s"
    "selected_sprite (added sp s) = selected_sprite s"
    by (simp_all add: added_def)
  have "distinct (map fst (sprites (added sp s)))"
    using assms(1,2) by (simp add: sp well_formed_def keyed_by_id_def)
  moreover have "sprite_id (heap (added sp s) (snd e)) = fst e \<and> snd e < next_ref (added sp s)"
    if "e \<in> set (sprites (added sp s))" for e
  proof (cases "e \<in> set (sprites s)")
    case True
    with old [of e] show ?thesis by (simp add: hp nr)
  next
    case False
    with that have "e = (sprite_id sp, next_ref s)" by (simp add: sp)
    then show ?thesis by (simp add: hp nr)
  qed
  ultimately have "keyed_by_id (added sp s)"
    by (simp add: keyed_by_id_def)
  moreover have "canvas_ids_issued (added sp s)"
    unfolding canvas_ids_issued_def
  proof
    fix r assume "r \<in> set (dict_values (sprites (added sp s)))"
    then consider "r = next_ref s" | e where "e \<in> set (sprites s)" "r = snd e"
      by (auto simp: sp dict_values_def)
    then show "issued_before (next_item (canvas (added sp s))) (canvas_id (heap (added sp s) r))"
    proof cases
      case 1
      then show ?thesis by (simp add: hp assms(3))
    next
      case 2
      with old(1) [of e] have "r \<noteq> next_ref s" by simp
      moreover have "issued_before (next_item (canvas s)) (canvas_id (heap s r))"
        using assms(1) 2 by (simp add: well_formed_def canvas_ids_issued_def dict_values_def)
      ultimately show ?thesis by (simp add: hp nr)
    qed
  qed
  moreover have "selection_present (added sp s)"
    using assms(1) by (auto simp: well_formed_def selection_present_def sp nr dict_values_def)
  ultimately show ?thesis
    by (simp add: well_formed_def)
qed

lemma extends_added: "extends {sprite_id sp} s (added sp s)"
  by (simp add: extends_def added_def keys_dict_set)

lemma dict_del_subset: "set (dict_del k d) \<subseteq> set d"
  by (simp add: dict_del_def)

lemma well_formed_remove:
  assumes "well_formed s"
  shows "well_formed (remove_sprite x s)"
proof (cases x)
  case None
  with assms show ?thesis by (simp add: remove_sprite_def)
next
  case (Some r)
  let ?d = "dict_del (sprite_id (heap s r)) (sprites s)"
  let ?t = "s\<lparr>sprites := ?d, selected_sprite := None\<rparr>"
  have sub: "set ?d \<subseteq> set (sprites s)" by (rule dict_del_subset)
  have "distinct (map fst ?d)"
    using assms by (simp add: well_formed_def keyed_by_id_def dict_del_def distinct_map_filter)
  then have "keyed_by_id ?t"
    using assms sub by (auto simp: well_formed_def keyed_by_id_def)
  moreover have "canvas_ids_issued ?t"
    using assms sub by (auto simp: well_formed_def canvas_ids_issued_def dict_values_def)
  moreover have "selection_present ?t"
    by (simp add: selection_present_def)
  ultimately have "well_formed ?t"
    by (simp add: well_formed_def)
  with assms Some show ?thesis
    by (simp add: remove_sprite_def)
qed

lemma extends_remove: "extends U s (remove_sprite x s)"
proof (cases x)
  case None
  then show ?thesis by (simp add: remove_sprite_def)
next
  case (Some r)
  have "set (map fst (dict_del k (sprites s))) \<subseteq> set (map fst (sprites s))" for k
    using dict_del_subset [of k "sprites s"] by auto
  then show ?thesis
    using Some by (simp add: remove_sprite_def extends_def le_supI1)
qed

lemma create_sprite_added:
  "snd (create_sprite u nm px py s) = added (Sprite_init u nm px py) s"
  by (simp add: create_sprite_def new_object_def added_def)

lemma duplicate_sprite_added:
  "duplicate_sprite u (Some r) s = added (duplicate u (heap s r)) s"
  by (simp add: duplicate_sprite_def new_object_def added_def)

lemma duplicate_fields [simp]:
  "sprite_id (duplicate u sp) = u" "canvas_id (duplicate u sp) = None"
  by (simp_all add: duplicate_def Sprite_init_def Let_def)

lemma Sprite_init_fields [simp]:
  "sprite_id (Sprite_init u nm px py) = u" "canvas_id (Sprite_init u nm px py) = None"
  by (simp_all add: Sprite_init_def)

lemma dict_get_present:
  "dict_get k d = Some r \<Longrightarrow> r \<in> set (dict_values d)"
proof -
  assume "dict_get k d = Some r"
  then have "(k, r) \<in> set d"
    by (simp add: dict_get_def map_of_SomeD)
  then show ?thesis
    by (force simp: dict_values_def)
qed

lemma find_clicked_sprite_present:
  "find_clicked_sprite s ns = Inr (Some r) \<Longrightarrow> r \<in> set (dict_values (sprites s))"
proof (induction ns)
  case Nil
  then show ?case by simp
next
  case (Cons n ns)
  show ?case
  proof (cases "''sprite'' \<in> set (gettags n (canvas s))")
    case True
    with Cons.prems obtain k where "dict_get k (sprites s) = Some r"
      by (auto simp: Let_def split: list.splits)
    then show ?thesis by (rule dict_get_present)
  next
    case False
    with Cons show ?thesis by (simp add: Let_def)
  qed
qed

lemma sprite_method_fields [simp]:
  "sprite_id (start_drag px py sp) = sprite_id sp" "canvas_id (start_drag px py sp) = canvas_id sp"
  "sprite_id (update_drag px py sp) = sprite_id sp" "canvas_id (update_drag px py sp) = canvas_id sp"
  "sprite_id (end_drag sp) = sprite_id sp" "canvas_id (end_drag sp) = canvas_id sp"
  "sprite_id (setattr p sp) = sprite_id sp" "canvas_id (setattr p sp) = canvas_id sp"
  "sprite_id (fst (load_texture d sp)) = sprite_id sp"
  "canvas_id (fst (load_texture d sp)) = canvas_id sp"
  by (simp_all add: start_drag_def update_drag_def end_drag_def setattr_def load_texture_def
      split: property.splits option.splits)

lemma keeps_same: "well_formed s \<Longrightarrow> keeps U s s"
  by (simp add: keeps_def)

lemma keeps_modify:
  assumes "well_formed s"
    and "\<And>sp. sprite_id (f sp) = sprite_id sp" and "\<And>sp. canvas_id (f sp) = canvas_id sp"
  shows "keeps U s (modify r f s)"
  using assms by (simp add: keeps_def well_formed_modify extends_modify)

lemma keeps_engine_load_texture:
  "well_formed s \<Longrightarrow> keeps U s (engine_load_texture d s)"
  by (simp add: engine_load_texture_def keeps_same keeps_modify split: option.splits)

lemma keeps_update_sprite_property:
  "well_formed s \<Longrightarrow> keeps U s (update_sprite_property p s)"
  by (simp add: update_sprite_property_def keeps_same keeps_modify split: option.splits)

lemma keeps_on_canvas_release:
  "well_formed s \<Longrightarrow> keeps U s (on_canvas_release s)"
  by (simp add: on_canvas_release_def keeps_same keeps_modify split: option.splits)

lemma keeps_render: "well_formed s \<Longrightarrow> keeps U s (render s)"
  by (simp add: keeps_def well_formed_render extends_render)

lemma keeps_game_loop: "well_formed s \<Longrightarrow> keeps U s (game_loop s)"
  by (simp add: game_loop_def keeps_same keeps_render)

lemma keeps_on_canvas_drag:
  assumes "well_formed s"
  shows "keeps U s (on_canvas_drag ex ey s)"
proof (cases "selected_sprite s")
  case None
  with assms show ?thesis by (simp add: on_canvas_drag_def keeps_same)
next
  case (Some r)
  let ?m = "modify r (update_drag ex ey) s"
  have m: "well_formed ?m" "extends {} s ?m"
    using assms by (simp_all add: well_formed_modify extends_modify)
  have "extends ({} \<union> U) s (render ?m)"
    by (rule extends_trans [OF m(2) extends_render])
  then show ?thesis
    using Some m(1) by (simp add: on_canvas_drag_def keeps_def well_formed_render)
qed

lemma keeps_select:
  assumes "well_formed s" and "set_option x \<subseteq> set (dict_values (sprites s))"
  shows "keeps U s (s\<lparr>selected_sprite := x\<rparr>)"
  using assms by (simp add: keeps_def well_formed_select)

lemma keeps_on_sprite_select:
  assumes "well_formed s"
  shows "keeps U s (case on_sprite_select sel s of Inl e \<Rightarrow> s | Inr s' \<Rightarrow> s')"
proof (cases sel)
  case Nil
  with assms show ?thesis by (simp add: on_sprite_select_def keeps_same)
next
  case (Cons item rest)
  have "set_option (dict_get item (sprites s)) \<subseteq> set (dict_values (sprites s))"
    by (auto dest: dict_get_present)
  with assms Cons show ?thesis
    by (simp add: on_sprite_select_def keeps_select)
qed

lemma clicked_sprite_present:
  "clicked_sprite ex ey s = Inr (Some r) \<Longrightarrow> r \<in> set (dict_values (sprites s))"
  unfolding clicked_sprite_def by (rule find_clicked_sprite_present)

lemma keeps_on_right_click:
  assumes "well_formed s"
  shows "keeps U s (case on_right_click ex ey s of Inl e \<Rightarrow> s | Inr s' \<Rightarrow> s')"
proof (cases "clicked_sprite ex ey s")
  case (Inl e)
  with assms show ?thesis by (simp add: on_right_click_def keeps_same)
next
  case (Inr found)
  show ?thesis
  proof (cases found)
    case None
    with assms Inr show ?thesis by (simp add: on_right_click_def keeps_same)
  next
    case (Some r)
    with Inr have "r \<in> set (dict_values (sprites s))"
      by (simp add: clicked_sprite_present)
    with assms Inr Some show ?thesis
      by (simp add: on_right_click_def keeps_select)
  qed
qed

lemma keeps_on_canvas_click:
  assumes "well_formed s"
  shows "keeps U s (case on_canvas_click ex ey s of Inl e \<Rightarrow> s | Inr s' \<Rightarrow> s')"
proof (cases "clicked_sprite ex ey s")
  case (Inl e)
  with assms show ?thesis by (simp add: on_canvas_click_def keeps_same)
next
  case (Inr found)
  show ?thesis
  proof (cases found)
    case None
    with assms Inr show ?thesis by (simp add: on_canvas_click_def keeps_same)
  next
    case (Some r)
    let ?t = "s\<lparr>selected_sprite := Some r\<rparr>"
    from Inr Some have "r \<in> set (dict_values (sprites s))"
      by (simp add: clicked_sprite_present)
    with assms have t: "well_formed ?t"
      by (simp add: well_formed_select)
    then have "well_formed (modify r (start_drag ex ey) ?t)"
      by (simp add: well_formed_modify)
    moreover have "extends U s (modify r (start_drag ex ey) ?t)"
      by (simp add: extends_def modify_def)
    ultimately show ?thesis
      using Inr Some by (simp add: on_canvas_click_def keeps_def)
  qed
qed

lemma keeps_added:
  assumes "well_formed s" and "sprite_id sp \<notin> fst ` set (sprites s)" and "canvas_id sp = None"
    and "sprite_id sp \<in> U"
  shows "keeps U s (added sp s)"
proof -
  have "extends U s (added sp s)"
    by (rule extends_mono [OF extends_added]) (simp add: assms(4))
  then show ?thesis
    using assms by (simp add: keeps_def well_formed_added)
qed

lemma keeps_duplicate_sprite:
  assumes "well_formed s" and "u \<notin> fst ` set (sprites s)"
  shows "keeps {u} s (duplicate_sprite u x s)"
proof (cases x)
  case None
  with assms show ?thesis by (simp add: duplicate_sprite_def keeps_same)
next
  case (Some r)
  with assms show ?thesis by (simp add: duplicate_sprite_added keeps_added)
qed

lemma keeps_create_sprite:
  assumes "well_formed s" and "u \<notin> fst ` set (sprites s)"
  shows "keeps {u} s (snd (create_sprite u nm px py s))"
  using assms by (simp add: create_sprite_added keeps_added)

lemma keeps_drag_source [simp]: "keeps U s (s'\<lparr>drag_source := x\<rparr>) = keeps U s s'"
  by (simp add: keeps_def)

lemma end_tree_drag_added:
  assumes "drag_source s = Some src" and "src \<noteq> []" and "panel_width < ex" and "ey < canvas_height"
    and "dict_get src (sprites s) = Some original"
  shows "end_tree_drag u ex ey panel_width canvas_height s =
           (added ((duplicate u (heap s original))\<lparr>sprite_x := ex - panel_width, sprite_y := ey\<rparr>) s)
             \<lparr>drag_source := None\<rparr>"
  using assms by (simp add: end_tree_drag_def new_object_def added_def Let_def)

lemma end_tree_drag_other:
  assumes "\<not> (\<exists>src original. drag_source s = Some src \<and> src \<noteq> [] \<and> panel_width < ex \<and>
               ey < canvas_height \<and> dict_get src (sprites s) = Some original)"
  shows "end_tree_drag u ex ey panel_width canvas_height s = s \<or>
         end_tree_drag u ex ey panel_width canvas_height s = s\<lparr>drag_source := None\<rparr>"
  using assms by (auto simp: end_tree_drag_def Let_def split: option.splits)

lemma keeps_end_tree_drag:
  assumes "well_formed s" and "u \<notin> fst ` set (sprites s)"
  shows "keeps {u} s (end_tree_drag u ex ey pw ch s)"
proof (cases "\<exists>src original. drag_source s = Some src \<and> src \<noteq> [] \<and> pw < ex \<and>
               ey < ch \<and> dict_get src (sprites s) = Some original")
  case True
  then obtain src original where "drag_source s = Some src" "src \<noteq> []" "pw < ex" "ey < ch"
    "dict_get src (sprites s) = Some original"
    by blast
  from end_tree_drag_added [OF this] assms show ?thesis
    by (simp add: keeps_added)
next
  case False
  from end_tree_drag_other [OF this, of u]
  consider "end_tree_drag u ex ey pw ch s = s"
    | "end_tree_drag u ex ey pw ch s = s\<lparr>drag_source := None\<rparr>"
    by blast
  then show ?thesis
  proof cases
    case 1
    with assms show ?thesis by (simp add: keeps_same)
  next
    case 2
    with assms show ?thesis by (simp add: keeps_same)
  qed
qed

lemma keeps_remove_sprite: "well_formed s \<Longrightarrow> keeps U s (remove_sprite x s)"
  by (simp add: keeps_def well_formed_remove extends_remove)

lemma keeps_after:
  assumes "well_formed s" and "set (draws ev) \<inter> fst ` set (sprites s) = {}"
  shows "keeps (set (draws ev)) s (after ev s)"
proof (cases ev)
  case (CreateSprite u nm px py)
  with assms show ?thesis by (simp add: after_def keeps_create_sprite)
next
  case (LoadTexture d)
  with assms show ?thesis by (simp add: after_def keeps_engine_load_texture)
next
  case (NameFocusOut t)
  with assms show ?thesis
    by (simp add: after_def name_entry_focus_out_def keeps_update_sprite_property)
next
  case (XFocusOut t)
  with assms show ?thesis
    by (simp add: after_def x_entry_focus_out_def keeps_update_sprite_property keeps_same
        split: option.splits)
next
  case (YFocusOut t)
  with assms show ?thesis
    by (simp add: after_def y_entry_focus_out_def keeps_update_sprite_property keeps_same
        split: option.splits)
next
  case (TreeviewSelect sel)
  with assms keeps_on_sprite_select [of s "{}" sel] show ?thesis by (simp add: after_def)
next
  case (CanvasClick ex ey)
  with assms keeps_on_canvas_click [of s "{}" ex ey] show ?thesis by (simp add: after_def)
next
  case (RightClick ex ey)
  with assms keeps_on_right_click [of s "{}" ex ey] show ?thesis by (simp add: after_def)
next
  case (CanvasDrag ex ey)
  with assms show ?thesis by (simp add: after_def keeps_on_canvas_drag)
next
  case CanvasRelease
  with assms show ?thesis by (simp add: after_def keeps_on_canvas_release)
next
  case (TreePress item)
  with assms show ?thesis by (simp add: after_def start_tree_drag_def keeps_same)
next
  case (TreeRelease u ex ey pw ch)
  with assms show ?thesis by (simp add: after_def keeps_end_tree_drag)
next
  case (MenuDuplicate u)
  with assms show ?thesis by (simp add: after_def keeps_duplicate_sprite)
next
  case MenuRemove
  with assms show ?thesis by (simp add: after_def keeps_remove_sprite)
next
  case Timer
  with assms show ?thesis by (simp add: after_def keeps_game_loop)
qed

lemma keeps_run:
  assumes "well_formed s" and "distinct (concat (map draws evs))"
    and "set (concat (map draws evs)) \<inter> fst ` set (sprites s) = {}"
  shows "keeps (set (concat (map draws evs))) s (run evs s)"
  using assms
proof (induction evs arbitrary: s)
  case Nil
  then show ?case by (simp add: run_def keeps_same)
next
  case (Cons ev evs)
  let ?t = "after ev s"
  have f: "set (draws ev) \<inter> fst ` set (sprites s) = {}"
    using Cons.prems(3) by auto
  have t: "well_formed ?t" "extends (set (draws ev)) s ?t"
    using keeps_after [OF Cons.prems(1) f] by (simp_all add: keeps_def)
  have d: "distinct (concat (map draws evs))"
    using Cons.prems(2) by simp
  have "set (concat (map draws evs)) \<inter> (fst ` set (sprites s) \<union> set (draws ev)) = {}"
    using Cons.prems(2,3) by auto
  moreover have "fst ` set (sprites ?t) \<subseteq> fst ` set (sprites s) \<union> set (draws ev)"
    using t(2) by (simp add: extends_def)
  ultimately have "set (concat (map draws evs)) \<inter> fst ` set (sprites ?t) = {}"
    by blast
  from Cons.IH [OF t(1) d this]
  have r: "well_formed (run evs ?t)" "extends (set (concat (map draws evs))) ?t (run evs ?t)"
    by (simp_all add: keeps_def)
  have "extends (set (draws ev) \<union> set (concat (map draws evs))) s (run evs ?t)"
    by (rule extends_trans [OF t(2) r(2)])
  then show ?case
    using r(1) by (simp add: keeps_def run_def)
qed

lemma init_eval:
  "sprites (FlamingEngineIDE_init u) = [(u, 0)]"
  "selected_sprite (FlamingEngineIDE_init u) = None"
  "next_ref (FlamingEngineIDE_init u) = 1"
  "sprite_id (heap (FlamingEngineIDE_init u) 0) = u"
  "canvas_id (heap (FlamingEngineIDE_init u) 0) = Some 1"
  "next_item (canvas (FlamingEngineIDE_init u)) = 2"
  by (simp_all add: model_defs)

lemma well_formed_init: "well_formed (FlamingEngineIDE_init u)"
  by (simp add: well_formed_def keyed_by_id_def canvas_ids_issued_def selection_present_def
      dict_values_def init_eval)

lemma reachable:
  assumes "distinct (u # concat (map draws evs))"
  shows "well_formed (run evs (FlamingEngineIDE_init u))"
    and "extends (set (concat (map draws evs))) (FlamingEngineIDE_init u)
           (run evs (FlamingEngineIDE_init u))"
proof -
  have "keeps (set (concat (map draws evs))) (FlamingEngineIDE_init u)
          (run evs (FlamingEngineIDE_init u))"
    by (rule keeps_run) (use assms in \<open>simp_all add: well_formed_init init_eval\<close>)
  then show "well_formed (run evs (FlamingEngineIDE_init u))"
    and "extends (set (concat (map draws evs))) (FlamingEngineIDE_init u)
           (run evs (FlamingEngineIDE_init u))"
    by (simp_all add: keeps_def)
qed

section \<open>Hit-testing\<close>

text \<open>
  Claim C1, as the code has it. The program has no hit-test of its own
  (\<open>contains_point\<close> is never called): \<open>on_canvas_click\<close> asks the canvas for the items
  that meet the square from \<open>(x, y)\<close> to \<open>(x + 1, y + 1)\<close> and takes the first of them.
  On a canvas that has just been rendered from a well-formed scene the click therefore
  finds the lowest hit, that is the first sprite in draw order whose drawn item meets
  that square, and finds nothing exactly when no drawn item meets it. Every sprite
  without a texture whose box contains the point is among the sprites that are hit.
  Both hypotheses hold in every state the program reaches (lemma \<open>reachable\<close>).
\<close>

theorem click_finds_lowest_sprite:
  assumes "keyed_by_id s" and "canvas_ids_issued s"
  shows "clicked_sprite ex ey (render s) =
           Inr (find (\<lambda>r. overlaps (drawn_shape (heap s r)) ex ey (ex + 1) (ey + 1))
                  (dict_values (sprites s))) \<and>
         (\<forall>r. contains_point (heap s r) ex ey \<and> texture (heap s r) = None \<longrightarrow>
              overlaps (drawn_shape (heap s r)) ex ey (ex + 1) (ey + 1))"
  using click_after_render [OF assms] by (simp add: contains_point_overlaps)

theorem click_finds_lowest_sprite_witness:
  "keyed_by_id scene_two \<and> canvas_ids_issued scene_two \<and>
   clicked_sprite 130 130 (render scene_two) =
     Inr (find (\<lambda>r. overlaps (drawn_shape (heap scene_two r)) 130 130 (130 + 1) (130 + 1))
            (dict_values (sprites scene_two))) \<and>
   contains_point (heap scene_two 1) 130 130 \<and> texture (heap scene_two 1) = None \<and>
   overlaps (drawn_shape (heap scene_two 1)) 130 130 (130 + 1) (130 + 1) \<and>
   clicked_sprite 130 130 (render scene_two) = Inr (Some 0)"
proof -
  have k: "keyed_by_id scene_two"
    by (simp add: keyed_by_id_def scene_two_eval)
  have c: "canvas_ids_issued scene_two"
    by (simp add: canvas_ids_issued_def dict_values_def scene_two_eval)
  have p: "contains_point (heap scene_two 1) 130 130" "texture (heap scene_two 1) = None"
    by (simp_all add: contains_point_def scene_two_eval)
  have f: "find (\<lambda>r. overlaps (drawn_shape (heap scene_two r)) 130 130 (130 + 1) (130 + 1))
             (dict_values (sprites scene_two)) = Some 0"
    by (simp add: dict_values_def drawn_shape_def scene_two_eval)
  show ?thesis
    using k c p f click_finds_lowest_sprite [OF k c, of 130 130] by simp
qed

text \<open>
  The claim as the specification words it fails: in \<open>scene_two\<close> the test sprite
  (object 0) was drawn before its copy (object 1), the point (130, 130) lies in both
  boxes, and the click finds the test sprite, not the copy drawn last.
\<close>

theorem click_finds_topmost_counterexample:
  "dict_values (sprites scene_two) = [0, 1] \<and>
   contains_point (heap scene_two 0) 130 130 \<and>
   contains_point (heap scene_two 1) 130 130 \<and>
   clicked_sprite 130 130 scene_two = Inr (Some 0)"
  by (simp add: scene_two_eval dict_values_def contains_point_def clicked_sprite_def
      find_overlapping_def gettags_def dict_get_def)

section \<open>Dragging, clicking and the inspector\<close>

lemma fold_update_drag:
  "is_dragging sp \<Longrightarrow>
   is_dragging (fold (\<lambda>q. update_drag (fst q) (snd q)) ms sp) \<and>
   drag_offset_x (fold (\<lambda>q. update_drag (fst q) (snd q)) ms sp) = drag_offset_x sp \<and>
   drag_offset_y (fold (\<lambda>q. update_drag (fst q) (snd q)) ms sp) = drag_offset_y sp"
  by (induction ms arbitrary: sp) (simp_all add: update_drag_def)

text \<open>
  Claim C4: a draggable sprite at \<open>S\<close> whose drag starts with the pointer at \<open>P\<close> is,
  after any sequence of pointer moves that ends at \<open>Q\<close>, at \<open>Q - (P - S)\<close>, and the
  offset stored at the start of the drag is still \<open>P - S\<close>.
\<close>

theorem drag_keeps_offset:
  assumes "draggable sp"
  shows "let sp' = fold (\<lambda>q. update_drag (fst q) (snd q)) (ms @ [(qx, qy)]) (start_drag px py sp)
         in sprite_x sp' = qx - (px - sprite_x sp) \<and>
            sprite_y sp' = qy - (py - sprite_y sp) \<and>
            drag_offset_x sp' = px - sprite_x sp \<and>
            drag_offset_y sp' = py - sprite_y sp"
proof -
  let ?d = "start_drag px py sp"
  let ?m = "fold (\<lambda>q. update_drag (fst q) (snd q)) ms ?d"
  have d: "is_dragging ?d" "drag_offset_x ?d = px - sprite_x sp" "drag_offset_y ?d = py - sprite_y sp"
    using assms by (simp_all add: start_drag_def)
  from fold_update_drag [OF d(1), of ms]
  have m: "is_dragging ?m" "drag_offset_x ?m = px - sprite_x sp" "drag_offset_y ?m = py - sprite_y sp"
    using d by simp_all
  show ?thesis
    using m by (simp add: update_drag_def)
qed

theorem drag_keeps_offset_witness:
  "draggable (heap scene_one 0) \<and>
   (let sp' = fold (\<lambda>q. update_drag (fst q) (snd q)) ([(300, 40), (7, 9)] @ [(200, 260)])
                (start_drag 110 125 (heap scene_one 0))
    in sprite_x sp' = 200 - (110 - sprite_x (heap scene_one 0)) \<and>
       sprite_y sp' = 260 - (125 - sprite_y (heap scene_one 0)) \<and>
       drag_offset_x sp' = 110 - sprite_x (heap scene_one 0) \<and>
       drag_offset_y sp' = 125 - sprite_y (heap scene_one 0))"
proof -
  have h: "draggable (heap scene_one 0)"
    by (simp add: scene_one_eval)
  show ?thesis
    using h drag_keeps_offset [OF h, of "[(300, 40), (7, 9)]" 200 260 110 125] by simp
qed

text \<open>
  Claim C10: a primary-button press at a point where the loop of \<open>on_canvas_click\<close>
  finds no sprite returns the state it was given: selection, dictionary, every sprite
  and the canvas are unchanged.
\<close>

theorem click_on_nothing_changes_nothing:
  assumes "clicked_sprite ex ey s = Inr None"
  shows "on_canvas_click ex ey s = Inr s \<and> after (CanvasClick ex ey) s = s"
  using assms by (simp add: on_canvas_click_def after_def)

theorem click_on_nothing_changes_nothing_witness:
  "clicked_sprite 200 200 scene_two = Inr None \<and>
   on_canvas_click 200 200 scene_two = Inr scene_two \<and>
   after (CanvasClick 200 200) scene_two = scene_two"
proof -
  have h: "clicked_sprite 200 200 scene_two = Inr None"
    by (simp add: clicked_sprite_def find_overlapping_def gettags_def scene_two_eval)
  show ?thesis
    using h click_on_nothing_changes_nothing [OF h] by simp
qed

text \<open>
  Claim C7 asks that no event produces an unhandled exception. \<open>on_sprite_select\<close>
  takes element 0 of the selection of the tree without looking at its length: on an
  empty selection it raises \<open>IndexError\<close>, in every state.
\<close>

theorem select_with_empty_selection_raises:
  "on_sprite_select [] s = Inl IndexError \<and> step (TreeviewSelect []) s = Inl IndexError"
  by (simp add: on_sprite_select_def)







lemma map_of_dict_del:
  "map_of (dict_del k d) k' = (if k' = k then None else map_of d k')"
  by (induction d) (auto simp: dict_del_def)

text \<open>
  Claim C9, as the code has it: \<open>remove_sprite\<close> of a sprite whose \<open>id\<close> is a key of
  the dictionary deletes that key and no other, leaves every sprite object and the canvas
  as they were, and sets \<open>selected_sprite\<close> to \<open>None\<close> whatever was selected;
  \<open>remove_sprite\<close> of a sprite whose \<open>id\<close> is not a key, or of \<open>None\<close>, changes
  nothing.
\<close>

theorem remove_always_clears_selection:
  "(dict_contains (sprite_id (heap s r)) (sprites s) \<longrightarrow>
      selected_sprite (remove_sprite (Some r) s) = None \<and>
      dict_get (sprite_id (heap s r)) (sprites (remove_sprite (Some r) s)) = None \<and>
      (\<forall>k. k \<noteq> sprite_id (heap s r) \<longrightarrow>
         dict_get k (sprites (remove_sprite (Some r) s)) = dict_get k (sprites s)) \<and>
      heap (remove_sprite (Some r) s) = heap s \<and>
      canvas (remove_sprite (Some r) s) = canvas s) \<and>
   (\<not> dict_contains (sprite_id (heap s r)) (sprites s) \<longrightarrow> remove_sprite (Some r) s = s) \<and>
   remove_sprite None s = s"
  by (simp add: remove_sprite_def dict_get_def map_of_dict_del)

theorem remove_always_clears_selection_witness:
  "dict_contains (sprite_id (heap scene_two 1)) (sprites scene_two) \<and>
   selected_sprite scene_two = Some 0 \<and>
   selected_sprite (remove_sprite (Some 1) scene_two) = None \<and>
   dict_get ''b'' (sprites (remove_sprite (Some 1) scene_two)) = None \<and>
   dict_get ''a'' (sprites (remove_sprite (Some 1) scene_two)) = Some 0 \<and>
   \<not> dict_contains (sprite_id (heap (remove_sprite (Some 1) scene_two) 1))
        (sprites (remove_sprite (Some 1) scene_two)) \<and>
   remove_sprite (Some 1) (remove_sprite (Some 1) scene_two) = remove_sprite (Some 1) scene_two"
proof -
  have h: "dict_contains (sprite_id (heap scene_two 1)) (sprites scene_two)"
    by (simp add: scene_two_eval dict_contains_def)
  have k: "sprite_id (heap scene_two 1) = ''b''" "dict_get ''a'' (sprites scene_two) = Some 0"
    "selected_sprite scene_two = Some 0"
    by (simp_all add: scene_two_eval dict_get_def)
  have n: "\<not> dict_contains (sprite_id (heap (remove_sprite (Some 1) scene_two) 1))
             (sprites (remove_sprite (Some 1) scene_two))"
    by (simp add: remove_sprite_def dict_contains_def dict_del_def scene_two_eval)
  show ?thesis
    using h k n remove_always_clears_selection [of scene_two 1]
      remove_always_clears_selection [of "remove_sprite (Some 1) scene_two" 1]
    by simp
qed

text \<open>
  The claim says that removing a sprite other than the selected one keeps the selection.
  In \<open>scene_two\<close> the test sprite (object 0) is selected; removing the copy (object 1)
  clears the selection.
\<close>

theorem remove_other_sprite_counterexample:
  "selected_sprite scene_two = Some 0 \<and>
   dict_get ''b'' (sprites scene_two) = Some 1 \<and>
   selected_sprite (remove_sprite (Some 1) scene_two) = None"
  by (simp add: scene_two_eval remove_sprite_def dict_defs)

lemma map_of_dict_set:
  "map_of (dict_set k v d) = (map_of d)(k \<mapsto> v)"
  by (induction d) (auto simp: fun_eq_iff)

text \<open>
  Claim C2, as the code has it: \<open>duplicate_sprite\<close> of an existing sprite allocates a
  new object, registers it under the string \<open>uuid4\<close> returned, which is its \<open>id\<close>;
  its name is the name of the source followed by \<open>_copy\<close>; colour, size, draggable
  flag and texture (the same image object) are those of the source; its position is the
  position of the source plus (20, 20); it has no script; the source is unchanged.
\<close>

theorem duplicate_copies_sprite:
  assumes "original < next_ref s"
  shows "let s' = duplicate_sprite uuid4 (Some original) s;
             src = heap s original;
             r = next_ref s;
             new = heap s' r
         in r \<noteq> original \<and>
            dict_get uuid4 (sprites s') = Some r \<and>
            sprite_id new = uuid4 \<and>
            sprite_name new = sprite_name src @ ''_copy'' \<and>
            color new = color src \<and>
            width new = width src \<and>
            height new = height src \<and>
            draggable new = draggable src \<and>
            sprite_x new = sprite_x src + 20 \<and>
            sprite_y new = sprite_y src + 20 \<and>
            texture new = texture src \<and>
            script new = None \<and>
            heap s' original = src"
proof -
  have "heap (duplicate_sprite uuid4 (Some original) s) (next_ref s) = duplicate uuid4 (heap s original)"
    by (simp add: duplicate_sprite_def new_object_def)
  moreover have "heap (duplicate_sprite uuid4 (Some original) s) original = heap s original"
    using assms by (simp add: duplicate_sprite_def new_object_def)
  moreover have "dict_get uuid4 (sprites (duplicate_sprite uuid4 (Some original) s)) = Some (next_ref s)"
    by (simp add: duplicate_sprite_def new_object_def dict_get_def map_of_dict_set duplicate_def Sprite_init_def Let_def)
  ultimately show ?thesis
    using assms by (simp add: duplicate_def Sprite_init_def Let_def)
qed

theorem duplicate_copies_sprite_witness:
  "(0::nat) < next_ref scene_scripted \<and>
   texture (heap scene_scripted 0) = Some \<lparr>photo_ref = 7, photo_width = 50, photo_height = 50\<rparr> \<and>
   (let s' = duplicate_sprite ''b'' (Some 0) scene_scripted;
        src = heap scene_scripted 0;
        r = next_ref scene_scripted;
        new = heap s' r
    in r \<noteq> 0 \<and>
       dict_get ''b'' (sprites s') = Some r \<and>
       sprite_id new = ''b'' \<and>
       sprite_name new = sprite_name src @ ''_copy'' \<and>
       color new = color src \<and>
       width new = width src \<and>
       height new = height src \<and>
       draggable new = draggable src \<and>
       sprite_x new = sprite_x src + 20 \<and>
       sprite_y new = sprite_y src + 20 \<and>
       texture new = texture src \<and>
       script new = None \<and>
       heap s' 0 = src)"
proof -
  have h: "(0::nat) < next_ref scene_scripted"
    by (simp add: scene_scripted_def scene_one_eval model_defs)
  have t: "texture (heap scene_scripted 0) =
             Some \<lparr>photo_ref = 7, photo_width = 50, photo_height = 50\<rparr>"
    by (simp add: scene_scripted_def scene_one_eval model_defs)
  show ?thesis
    using h t duplicate_copies_sprite [OF h, of "''b''"] by simp
qed

text \<open>
  The claim says that the script text of the copy equals that of the source. The test
  sprite of \<open>scene_scripted\<close> has a script; its copy has none.
\<close>

theorem duplicate_drops_script_counterexample:
  "dict_get ''a'' (sprites scene_scripted) = Some 0 \<and>
   script (heap scene_scripted 0) = Some ''print(1)'' \<and>
   script (heap (duplicate_sprite ''b'' (Some 0) scene_scripted) (next_ref scene_scripted)) = None"
  by (simp add: scene_scripted_def scene_one_eval model_defs)

section \<open>Identities and the selection\<close>



lemma remove_selected:
  assumes "well_formed s"
  shows "selected_sprite (remove_sprite (selected_sprite s) s) = None"
    and "set_option (selected_sprite s) \<inter>
           set (dict_values (sprites (remove_sprite (selected_sprite s) s))) = {}"
proof -
  have both: "selected_sprite (remove_sprite (selected_sprite s) s) = None \<and>
        set_option (selected_sprite s) \<inter>
           set (dict_values (sprites (remove_sprite (selected_sprite s) s))) = {}"
  proof (cases "selected_sprite s")
    case None
    then show ?thesis by (simp add: remove_sprite_def)
  next
    case (Some r)
    let ?k = "sprite_id (heap s r)"
    from assms Some have "r \<in> set (dict_values (sprites s))"
      by (simp add: well_formed_def selection_present_def)
    then obtain e where e: "e \<in> set (sprites s)" "snd e = r"
      by (auto simp: dict_values_def)
    with assms have k: "fst e = ?k"
      by (auto simp: well_formed_def keyed_by_id_def)
    have "fst e \<in> fst ` set (sprites s)"
      using e(1) by (rule imageI)
    with k have c: "dict_contains ?k (sprites s)"
      by (simp add: dict_contains_def)
    have "r \<noteq> snd e'" if "e' \<in> set (dict_del ?k (sprites s))" for e'
    proof
      assume r: "r = snd e'"
      from that have e': "e' \<in> set (sprites s)" "fst e' \<noteq> ?k"
        by (simp_all add: dict_del_def)
      with assms have "sprite_id (heap s (snd e')) = fst e'"
        by (simp add: well_formed_def keyed_by_id_def)
      with r e'(2) show False by simp
    qed
    then have "r \<notin> set (dict_values (dict_del ?k (sprites s)))"
      by (auto simp: dict_values_def)
    with Some c show ?thesis
      by (simp add: remove_sprite_def)
  qed
  from both show "selected_sprite (remove_sprite (selected_sprite s) s) = None" ..
  from both show "set_option (selected_sprite s) \<inter>
           set (dict_values (sprites (remove_sprite (selected_sprite s) s))) = {}" ..
qed

text \<open>
  Claim C5: in every state the program reaches, along any sequence of events whose
  \<open>uuid4\<close> strings are pairwise distinct, the selection is empty or is a sprite of the
  dictionary; and the Remove command, which removes the selected sprite, leaves nothing
  selected and the removed sprite out of the dictionary.
\<close>

theorem selection_never_dangles:
  assumes "distinct (u # concat (map draws evs))"
  shows "let s = run evs (FlamingEngineIDE_init u) in
           selection_present s \<and>
           selected_sprite (after MenuRemove s) = None \<and>
           set_option (selected_sprite s) \<inter> set (dict_values (sprites (after MenuRemove s))) = {}"
proof -
  have w: "well_formed (run evs (FlamingEngineIDE_init u))"
    using assms by (rule reachable)
  then have "selection_present (run evs (FlamingEngineIDE_init u))"
    by (simp add: well_formed_def)
  with remove_selected [OF w] show ?thesis
    by (simp add: after_def Let_def)
qed

theorem selection_never_dangles_witness:
  "distinct (''a'' # concat (map draws [CanvasClick 110 110, MenuDuplicate ''b'', Timer,
       CanvasClick 160 160, CanvasDrag 300 300, CanvasRelease])) \<and>
   selected_sprite (run [CanvasClick 110 110, MenuDuplicate ''b'', Timer,
       CanvasClick 160 160, CanvasDrag 300 300, CanvasRelease] (FlamingEngineIDE_init ''a'')) = Some 1 \<and>
   (let s = run [CanvasClick 110 110, MenuDuplicate ''b'', Timer,
       CanvasClick 160 160, CanvasDrag 300 300, CanvasRelease] (FlamingEngineIDE_init ''a'') in
      selection_present s \<and>
      selected_sprite (after MenuRemove s) = None \<and>
      set_option (selected_sprite s) \<inter> set (dict_values (sprites (after MenuRemove s))) = {})"
proof -
  have h: "distinct (''a'' # concat (map draws [CanvasClick 110 110, MenuDuplicate ''b'', Timer,
       CanvasClick 160 160, CanvasDrag 300 300, CanvasRelease]))"
    by simp
  have s: "selected_sprite (run [CanvasClick 110 110, MenuDuplicate ''b'', Timer,
       CanvasClick 160 160, CanvasDrag 300 300, CanvasRelease] (FlamingEngineIDE_init ''a'')) = Some 1"
    by (simp add: model_defs)
  show ?thesis
    using h s selection_never_dangles [OF h] by simp
qed




end
